theory Spec2Isabelle
  imports Main "HOL-Library.List_Lexorder"
begin

section \<open>Python values, exceptions and the world the program runs in\<close>

text \<open>
  A Python \<open>str\<close> is a sequence of Unicode code points; \<open>pystr\<close> keeps them as
  natural numbers, so that NUL is \<open>0\<close>, a line feed is \<open>10\<close> and the comparison of two
  strings is the lexicographic order on code points, as in Python.  File paths are
  Python strings too.
\<close>

type_synonym pystr = "nat list"

abbreviation (input) U :: "string \<Rightarrow> pystr" where
  "U s \<equiv> map of_char s"

text \<open>
  The exceptions the code can meet.  All of them are subclasses of \<open>Exception\<close>;
  \<open>JSONDecodeError\<close> is the one class that the handlers tell apart from the others.
\<close>

datatype exn =
    JSONDecodeError
  | UnicodeDecodeError
  | OSError
  | RecursionError
  | ValueError
  | TypeError
  | AttributeError
  | OtherException

text \<open>The \<open>errors=\<close> argument of \<open>open\<close>: absent (strict), \<open>"ignore"\<close> or \<open>"replace"\<close>.\<close>

datatype errors = Strict | Ignore | Replace

text \<open>
  What the program does to the outside world, in the order it does it: calls of
  \<open>open\<close> and records handed to the module's logger.  Each log record keeps the level
  and the values interpolated into the message.
\<close>

datatype level = DEBUG | WARNING | ERROR

datatype message =
    File_not_found pystr
  | JSON_decode_error_in pystr exn
  | Error_loading pystr exn
  | Failed_with_ignore_errors_strategy exn
  | All_strategies_failed_for pystr exn
  | File_does_not_exist pystr
  | Invalid_JSON_in pystr exn
  | Error_validating pystr exn
  | Line_has_JSON_error nat exn
  | Stopped_validation_at int
  | Error_reading pystr exn
  | Found_invalid_lines_in nat pystr
  | Data_directory_does_not_exist pystr
  | No_data_loaded_from pystr

datatype event = Open pystr errors | Log level message

text \<open>
  The operating system and the standard library, as far as the code calls them:
  \<^item> \<open>path_exists\<close> is \<open>os.path.exists\<close>;
  \<^item> \<open>open_text p e\<close> is \<open>open(p, "r", encoding="utf-8", errors=e)\<close> followed by
    reading the file to its end: the decoded text (line ends translated to a line feed,
    as text mode does), or the exception raised by \<open>open\<close> or by the read;
  \<^item> \<open>json_loads strict s\<close> is \<open>json.loads(s, strict=strict)\<close>: the decoded document
    or the exception raised;
  \<^item> \<open>os_walk\<close> is \<open>os.walk\<close>: the triples \<open>(root, dirs, files)\<close> it yields.
  The document type \<open>'doc\<close> is left open in the file validator, which never looks
  inside a document.
\<close>

record 'doc env =
  path_exists :: "pystr \<Rightarrow> bool"
  open_text :: "pystr \<Rightarrow> errors \<Rightarrow> exn + pystr"
  json_loads :: "bool \<Rightarrow> pystr \<Rightarrow> exn + 'doc"
  os_walk :: "pystr \<Rightarrow> (pystr \<times> pystr list \<times> pystr list) list"

section \<open>Documents and the standard decoder\<close>

text \<open>
  The values \<open>json.loads\<close> builds: \<open>None\<close>, \<open>bool\<close>, \<open>int\<close>, \<open>float\<close>, \<open>str\<close>,
  \<open>list\<close> and \<open>dict\<close>.  A dictionary keeps its insertion order and has each key once.
  Floating-point numbers are opaque: \<open>'f\<close> is their type, and whoever needs one says
  how \<open>float(literal)\<close> and \<open>bool(x)\<close> behave.
\<close>

datatype 'f pyval =
    PNone
  | PBool bool
  | PInt int
  | PFloat 'f
  | PStr pystr
  | PList "'f pyval list"
  | PDict "(pystr \<times> 'f pyval) list"

text \<open>\<open>d[key] = value\<close>: an existing key keeps its place, a new key goes to the end.\<close>

fun dict_set :: "('k \<times> 'v) list \<Rightarrow> 'k \<Rightarrow> 'v \<Rightarrow> ('k \<times> 'v) list" where
  "dict_set [] key value = [(key, value)]"
| "dict_set ((k, v) # d) key value =
     (if k = key then (k, value) # d else (k, v) # dict_set d key value)"

definition dict_of_pairs :: "('k \<times> 'v) list \<Rightarrow> ('k \<times> 'v) list" where
  "dict_of_pairs pairs = foldl (\<lambda>d kv. dict_set d (fst kv) (snd kv)) [] pairs"

text \<open>
  The decoder of the standard library (\<open>json.decoder\<close>, \<open>json.scanner\<close>), which the code
  calls as \<open>json.load(f, strict=False)\<close>, \<open>json.loads(s, strict=False)\<close> and
  \<open>json.load(f)\<close>.  It works on the text that is left to read and returns the value with
  the rest of the text; \<open>None\<close> stands for \<open>JSONDecodeError\<close> where no other exception
  can occur.
\<close>

definition nextchar_is :: "nat \<Rightarrow> pystr \<Rightarrow> bool" where
  "nextchar_is c s = (case s of [] \<Rightarrow> False | x # _ \<Rightarrow> x = c)"

definition startswith :: "pystr \<Rightarrow> pystr \<Rightarrow> bool" where
  "startswith s prefix \<longleftrightarrow> take (length prefix) s = prefix"

text \<open>The white space of JSON: space, tab, line feed, carriage return.\<close>

definition json_ws :: "nat \<Rightarrow> bool" where
  "json_ws c \<longleftrightarrow> c = 32 \<or> c = 9 \<or> c = 10 \<or> c = 13"

definition skip_ws :: "pystr \<Rightarrow> pystr" where
  "skip_ws s = dropWhile json_ws s"

definition is_digit :: "nat \<Rightarrow> bool" where
  "is_digit c \<longleftrightarrow> 48 \<le> c \<and> c \<le> 57"

definition hexval :: "nat \<Rightarrow> nat option" where
  "hexval c =
     (if 48 \<le> c \<and> c \<le> 57 then Some (c - 48)
      else if 97 \<le> c \<and> c \<le> 102 then Some (c - 87)
      else if 65 \<le> c \<and> c \<le> 70 then Some (c - 55)
      else None)"

text \<open>The four hexadecimal digits of a \<open>\uXXXX\<close> escape.\<close>

fun hex4 :: "pystr \<Rightarrow> nat option" where
  "hex4 [a, b, c, d] =
     (case (hexval a, hexval b, hexval c, hexval d) of
        (Some x, Some y, Some z, Some w) \<Rightarrow> Some (((x * 16 + y) * 16 + z) * 16 + w)
      | _ \<Rightarrow> None)"
| "hex4 _ = None"

text \<open>The one-letter escapes: quote, backslash, slash, b, f, n, r, t.\<close>

definition backslash :: "nat \<Rightarrow> nat option" where
  "backslash esc =
     (if esc = 34 then Some 34 else if esc = 92 then Some 92 else if esc = 47 then Some 47
      else if esc = 98 then Some 8 else if esc = 102 then Some 12
      else if esc = 110 then Some 10 else if esc = 114 then Some 13
      else if esc = 116 then Some 9 else None)"

definition push :: "nat \<Rightarrow> (pystr \<times> pystr) option \<Rightarrow> (pystr \<times> pystr) option" where
  "push c r = (case r of None \<Rightarrow> None | Some (str, rest) \<Rightarrow> Some (c # str, rest))"

text \<open>
  \<open>scanstring\<close>, from the character after the opening quote.  A control character
  (below 32) inside the string is an error when \<open>strict\<close>, and is part of the string
  otherwise; this is the only place where \<open>strict\<close> is looked at.
\<close>

fun scanstring :: "bool \<Rightarrow> pystr \<Rightarrow> (pystr \<times> pystr) option" where
  "scanstring strict [] = None"
| "scanstring strict (c # cs) =
     (if c = 34 then Some ([], cs)
      else if c = 92 then
        (case cs of
           [] \<Rightarrow> None
         | esc # cs1 \<Rightarrow>
             if esc = 117 then
               (case hex4 (take 4 cs1) of
                  None \<Rightarrow> None
                | Some uni \<Rightarrow>
                    if 0xD800 \<le> uni \<and> uni \<le> 0xDBFF \<and> take 2 (drop 4 cs1) = [92, 117] then
                      (case hex4 (take 4 (drop 6 cs1)) of
                         None \<Rightarrow> None
                       | Some uni2 \<Rightarrow>
                           if 0xDC00 \<le> uni2 \<and> uni2 \<le> 0xDFFF
                           then push (0x10000 + (uni - 0xD800) * 1024 + (uni2 - 0xDC00))
                                  (scanstring strict (drop 10 cs1))
                           else push uni (scanstring strict (drop 4 cs1)))
                    else push uni (scanstring strict (drop 4 cs1)))
             else (case backslash esc of
                     None \<Rightarrow> None
                   | Some ch \<Rightarrow> push ch (scanstring strict cs1)))
      else if c < 32 then (if strict then None else push c (scanstring strict cs))
      else push c (scanstring strict cs))"

text \<open>
  What the decoder takes from the interpreter it runs in: the conversion of a literal to
  a \<open>float\<close>, the number of nested arrays and objects that can still be entered before
  \<open>RecursionError\<close> is raised (it comes from \<open>sys.getrecursionlimit()\<close> and the depth of
  the call), and \<open>sys.get_int_max_str_digits()\<close>, the longest integer literal \<open>int\<close>
  converts (4300 unless changed; 0 for no limit).
\<close>

record 'f interp =
  py_float :: "pystr \<Rightarrow> 'f"
  recursion_limit :: nat
  int_max_str_digits :: nat

definition int_of_digits :: "pystr \<Rightarrow> int" where
  "int_of_digits ds = foldl (\<lambda>a d. 10 * a + int (d - 48)) 0 ds"

text \<open>
  A number: an optional minus, then \<open>0\<close> or a digit from 1 to 9 followed by digits
  (\<open>match_int\<close>), an optional fraction (a point and at least one digit, \<open>match_frac\<close>),
  an optional exponent (\<open>e\<close> or \<open>E\<close>, an optional sign, at least one digit, \<open>match_exp\<close>).
  Each part returns what it matched with the rest of the text.
\<close>

definition match_int :: "pystr \<Rightarrow> (pystr \<times> pystr) option" where
  "match_int s =
     (case s of
        [] \<Rightarrow> None
      | c # r \<Rightarrow>
          if c = 48 then Some ([c], r)
          else if 49 \<le> c \<and> c \<le> 57 then Some (c # takeWhile is_digit r, dropWhile is_digit r)
          else None)"

definition match_frac :: "pystr \<Rightarrow> pystr \<times> pystr" where
  "match_frac s =
     (if nextchar_is 46 s \<and> tl s \<noteq> [] \<and> is_digit (hd (tl s))
      then (46 # takeWhile is_digit (tl s), dropWhile is_digit (tl s))
      else ([], s))"

definition match_exp :: "pystr \<Rightarrow> pystr \<times> pystr" where
  "match_exp s =
     (if nextchar_is 101 s \<or> nextchar_is 69 s then
        (let sign = (if nextchar_is 43 (tl s) \<or> nextchar_is 45 (tl s) then [hd (tl s)] else []);
             r = drop (length sign) (tl s)
         in if r \<noteq> [] \<and> is_digit (hd r)
            then (hd s # sign @ takeWhile is_digit r, dropWhile is_digit r)
            else ([], s))
      else ([], s))"

text \<open>
  The value of a matched number.  Without fraction and exponent it is an \<open>int\<close>, and
  \<open>int\<close> raises \<open>ValueError\<close> on more digits than the interpreter allows; otherwise the
  literal goes to \<open>float\<close>.
\<close>

definition number_value ::
  "'f interp \<Rightarrow> bool \<Rightarrow> pystr \<Rightarrow> pystr \<Rightarrow> pystr \<Rightarrow> exn + 'f pyval" where
  "number_value cfg neg ds frac exp =
     (if frac = [] \<and> exp = [] then
        (if int_max_str_digits cfg \<noteq> 0 \<and> length ds > int_max_str_digits cfg
         then Inl ValueError
         else Inr (PInt (if neg then - int_of_digits ds else int_of_digits ds)))
      else Inr (PFloat (py_float cfg ((if neg then [45] else []) @ ds @ frac @ exp))))"

definition match_number :: "'f interp \<Rightarrow> pystr \<Rightarrow> (exn + 'f pyval \<times> pystr) option" where
  "match_number cfg s =
     (let neg = nextchar_is 45 s
      in case match_int (if neg then tl s else s) of
           None \<Rightarrow> None
         | Some (ds, r1) \<Rightarrow>
             let (frac, r2) = match_frac r1;
                 (exp, r3) = match_exp r2
             in (case number_value cfg neg ds frac exp of
                   Inl ex \<Rightarrow> Some (Inl ex)
                 | Inr value \<Rightarrow> Some (Inr (value, r3))))"

text \<open>
  The named constants, tried in this order, and after them a number: the values that are
  neither a string nor an object nor an array.  Where nothing matches, the decoder raises
  \<open>JSONDecodeError\<close>.
\<close>

definition constants :: "'f interp \<Rightarrow> (pystr \<times> 'f pyval) list" where
  "constants cfg =
     [(U ''null'', PNone), (U ''true'', PBool True), (U ''false'', PBool False),
      (U ''NaN'', PFloat (py_float cfg (U ''NaN''))),
      (U ''Infinity'', PFloat (py_float cfg (U ''Infinity''))),
      (U ''-Infinity'', PFloat (py_float cfg (U ''-Infinity'')))]"

fun match_constant :: "(pystr \<times> 'v) list \<Rightarrow> pystr \<Rightarrow> ('v \<times> pystr) option" where
  "match_constant [] s = None"
| "match_constant ((literal, value) # table) s =
     (if startswith s literal then Some (value, drop (length literal) s)
      else match_constant table s)"

definition scan_atom :: "'f interp \<Rightarrow> pystr \<Rightarrow> exn + 'f pyval \<times> pystr" where
  "scan_atom cfg s =
     (case match_constant (constants cfg) s of
        Some r \<Rightarrow> Inr r
      | None \<Rightarrow>
         (case match_number cfg s of
            None \<Rightarrow> Inl JSONDecodeError
          | Some res \<Rightarrow> res))"

text \<open>
  \<open>scan_once\<close> with \<open>JSONArray\<close> and \<open>JSONObject\<close>; \<open>parse_array\<close> and \<open>parse_object\<close> are
  the loops over the items, entered at the first item with the items read so far.
  \<open>depth\<close> is the number of arrays and objects that can still be entered: entering one
  when it is 0 raises \<open>RecursionError\<close>.  The second number only makes the recursion of the
  definition well-founded: it bounds the calls, \<open>None\<close> says that it was too small, and
  \<open>scan_once_fuel\<close> below shows that the bound used by \<open>py_json_loads\<close> never is.
\<close>

fun scan_once ::
  "'f interp \<Rightarrow> bool \<Rightarrow> nat \<Rightarrow> nat \<Rightarrow> pystr \<Rightarrow> (exn + 'f pyval \<times> pystr) option"
and parse_array ::
  "'f interp \<Rightarrow> bool \<Rightarrow> nat \<Rightarrow> nat \<Rightarrow> pystr \<Rightarrow> 'f pyval list
     \<Rightarrow> (exn + 'f pyval \<times> pystr) option"
and parse_object ::
  "'f interp \<Rightarrow> bool \<Rightarrow> nat \<Rightarrow> nat \<Rightarrow> pystr \<Rightarrow> (pystr \<times> 'f pyval) list
     \<Rightarrow> (exn + 'f pyval \<times> pystr) option"
where
  "scan_once cfg strict depth 0 s = None"
| "scan_once cfg strict depth (Suc n) s =
     (if nextchar_is 34 s then
        (case scanstring strict (tl s) of
           None \<Rightarrow> Some (Inl JSONDecodeError)
         | Some (str, rest) \<Rightarrow> Some (Inr (PStr str, rest)))
      else if nextchar_is 123 s then
        (if depth = 0 then Some (Inl RecursionError)
         else if nextchar_is 125 (skip_ws (tl s)) then Some (Inr (PDict [], tl (skip_ws (tl s))))
         else parse_object cfg strict (depth - 1) n (skip_ws (tl s)) [])
      else if nextchar_is 91 s then
        (if depth = 0 then Some (Inl RecursionError)
         else if nextchar_is 93 (skip_ws (tl s)) then Some (Inr (PList [], tl (skip_ws (tl s))))
         else parse_array cfg strict (depth - 1) n (skip_ws (tl s)) [])
      else Some (scan_atom cfg s))"
| "parse_array cfg strict depth 0 s values = None"
| "parse_array cfg strict depth (Suc n) s values =
     (case scan_once cfg strict depth n s of
        None \<Rightarrow> None
      | Some (Inl ex) \<Rightarrow> Some (Inl ex)
      | Some (Inr (value, s1)) \<Rightarrow>
          if nextchar_is 93 (skip_ws s1)
          then Some (Inr (PList (values @ [value]), tl (skip_ws s1)))
          else if \<not> nextchar_is 44 (skip_ws s1) then Some (Inl JSONDecodeError)
          else parse_array cfg strict depth n (skip_ws (tl (skip_ws s1))) (values @ [value]))"
| "parse_object cfg strict depth 0 s pairs = None"
| "parse_object cfg strict depth (Suc n) s pairs =
     (if \<not> nextchar_is 34 s then Some (Inl JSONDecodeError)
      else
       (case scanstring strict (tl s) of
          None \<Rightarrow> Some (Inl JSONDecodeError)
        | Some (key, s1) \<Rightarrow>
           (if \<not> nextchar_is 58 (skip_ws s1) then Some (Inl JSONDecodeError)
            else
             (case scan_once cfg strict depth n (skip_ws (tl (skip_ws s1))) of
                None \<Rightarrow> None
              | Some (Inl ex) \<Rightarrow> Some (Inl ex)
              | Some (Inr (value, s3)) \<Rightarrow>
                  if nextchar_is 125 (skip_ws s3)
                  then Some (Inr (PDict (dict_of_pairs (pairs @ [(key, value)])),
                                  tl (skip_ws s3)))
                  else if \<not> nextchar_is 44 (skip_ws s3) then Some (Inl JSONDecodeError)
                  else parse_object cfg strict depth n (skip_ws (tl (skip_ws s3)))
                         (pairs @ [(key, value)])))))"

text \<open>
  \<open>json.loads(s, strict=strict)\<close> for a \<open>str\<close>: a leading byte order mark is refused,
  white space around the one value is skipped, and anything after it is an error.  The
  bound on the calls is twice the length of the text and one more (a call is made only
  after a character has been read, or for the first item after a bracket).
\<close>

definition py_json_loads :: "'f interp \<Rightarrow> bool \<Rightarrow> pystr \<Rightarrow> exn + 'f pyval" where
  "py_json_loads cfg strict s =
     (if nextchar_is 0xFEFF s then Inl JSONDecodeError
      else case scan_once cfg strict (recursion_limit cfg) (Suc (2 * length s)) (skip_ws s) of
             None \<Rightarrow> Inl RecursionError
           | Some (Inl ex) \<Rightarrow> Inl ex
           | Some (Inr (obj, rest)) \<Rightarrow>
               if skip_ws rest = [] then Inr obj else Inl JSONDecodeError)"

section \<open>json_validator.py\<close>

text \<open>
  \<open>with open(file_path, "r", encoding="utf-8", errors=e) as f: json.load(f, strict=strict)\<close>:
  \<open>json.load\<close> reads the whole file and hands the text to \<open>json.loads\<close>.
\<close>

definition json_load :: "'doc env \<Rightarrow> pystr \<Rightarrow> errors \<Rightarrow> bool \<Rightarrow> exn + 'doc" where
  "json_load env file_path e strict =
     (case open_text env file_path e of
        Inl ex \<Rightarrow> Inl ex
      | Inr content \<Rightarrow> json_loads env strict content)"

subsection \<open>sanitize_json_string\<close>

definition sanitize_json_string :: "pystr \<Rightarrow> pystr" where
  "sanitize_json_string json_string = filter (\<lambda>c. c \<noteq> 0) json_string"

subsection \<open>validate_json_file\<close>

definition validate_json_file :: "'doc env \<Rightarrow> pystr \<Rightarrow> bool \<times> event list" where
  "validate_json_file env file_path =
     (if \<not> path_exists env file_path
      then (False, [Log ERROR (File_does_not_exist file_path)])
      else case json_load env file_path Strict True of
             Inr _ \<Rightarrow> (True, [Open file_path Strict])
           | Inl ex \<Rightarrow>
               (False, [Open file_path Strict,
                        Log ERROR (if ex = JSONDecodeError
                                   then Invalid_JSON_in file_path ex
                                   else Error_validating file_path ex)]))"

subsection \<open>load_json_safe\<close>

text \<open>
  The third strategy: read the text with invalid bytes replaced, sanitize it, and
  decode the sanitized text.
\<close>

definition sanitize_and_reload :: "'doc env \<Rightarrow> pystr \<Rightarrow> exn + 'doc" where
  "sanitize_and_reload env file_path =
     (case open_text env file_path Replace of
        Inl ex \<Rightarrow> Inl ex
      | Inr content \<Rightarrow> json_loads env False (sanitize_json_string content))"

definition strategy1_warning :: "pystr \<Rightarrow> exn \<Rightarrow> event" where
  "strategy1_warning file_path ex =
     Log WARNING (if ex = JSONDecodeError
                  then JSON_decode_error_in file_path ex
                  else Error_loading file_path ex)"

definition load_json_safe :: "'doc env \<Rightarrow> pystr \<Rightarrow> 'doc \<Rightarrow> 'doc \<times> event list" where
  "load_json_safe env file_path dflt =
     (if \<not> path_exists env file_path
      then (dflt, [Log WARNING (File_not_found file_path)])
      else
        case json_load env file_path Strict False of
          Inr doc \<Rightarrow> (doc, [Open file_path Strict])
        | Inl e1 \<Rightarrow>
           (case json_load env file_path Ignore False of
              Inr doc \<Rightarrow>
                (doc, [Open file_path Strict, strategy1_warning file_path e1,
                       Open file_path Ignore])
            | Inl e2 \<Rightarrow>
               (case sanitize_and_reload env file_path of
                  Inr doc \<Rightarrow>
                    (doc, [Open file_path Strict, strategy1_warning file_path e1,
                           Open file_path Ignore,
                           Log WARNING (Failed_with_ignore_errors_strategy e2),
                           Open file_path Replace])
                | Inl e3 \<Rightarrow>
                    (dflt,
                     [Open file_path Strict, strategy1_warning file_path e1,
                      Open file_path Ignore,
                      Log WARNING (Failed_with_ignore_errors_strategy e2),
                      Open file_path Replace,
                      Log ERROR (All_strategies_failed_for file_path e3)]))))"

subsection \<open>validate_jsonl_file\<close>

text \<open>
  \<open>str.isspace\<close> for one code point, and \<open>not line.strip()\<close>: a line is skipped when
  stripping white space leaves nothing, that is, when all its code points are white space.
\<close>

definition py_isspace :: "nat \<Rightarrow> bool" where
  "py_isspace c \<longleftrightarrow>
     (9 \<le> c \<and> c \<le> 13) \<or> (28 \<le> c \<and> c \<le> 32) \<or> c = 0x85 \<or> c = 0xA0 \<or> c = 0x1680 \<or>
     (0x2000 \<le> c \<and> c \<le> 0x200A) \<or> c = 0x2028 \<or> c = 0x2029 \<or> c = 0x202F \<or>
     c = 0x205F \<or> c = 0x3000"

definition blank :: "pystr \<Rightarrow> bool" where
  "blank line \<longleftrightarrow> list_all py_isspace line"

text \<open>
  Iterating over a text file yields its lines, each with its line feed; a last line
  without one is yielded as it is, and an empty file yields nothing.
\<close>

fun file_lines :: "pystr \<Rightarrow> pystr list" where
  "file_lines [] = []"
| "file_lines (c # cs) =
     (if c = 10 then [c] # file_lines cs
      else case file_lines cs of
             [] \<Rightarrow> [[c]]
           | l # ls \<Rightarrow> (c # l) # ls)"

text \<open>
  The \<open>for i, line in enumerate(f, 1)\<close> loop.  Its state is the list \<open>error_lines\<close> and
  the log; it ends at the end of the file, at the \<open>break\<close>, or with an exception other
  than \<open>JSONDecodeError\<close>, which leaves the loop and is returned as \<open>Some\<close>.
\<close>

fun scan_lines ::
  "'doc env \<Rightarrow> int \<Rightarrow> nat \<Rightarrow> pystr list \<Rightarrow> nat list \<Rightarrow> event list
     \<Rightarrow> exn option \<times> nat list \<times> event list" where
  "scan_lines env max_errors i [] error_lines log = (None, error_lines, log)"
| "scan_lines env max_errors i (line # rest) error_lines log =
     (if blank line then scan_lines env max_errors (Suc i) rest error_lines log
      else case json_loads env False line of
             Inr _ \<Rightarrow> scan_lines env max_errors (Suc i) rest error_lines log
           | Inl ex \<Rightarrow>
               if ex = JSONDecodeError
               then if int (length (error_lines @ [i])) \<ge> max_errors
                    then (None, error_lines @ [i],
                          log @ [Log DEBUG (Line_has_JSON_error i ex),
                                 Log WARNING (Stopped_validation_at max_errors)])
                    else scan_lines env max_errors (Suc i) rest (error_lines @ [i])
                           (log @ [Log DEBUG (Line_has_JSON_error i ex)])
               else (Some ex, error_lines, log))"

definition validate_jsonl_file ::
  "'doc env \<Rightarrow> pystr \<Rightarrow> int \<Rightarrow> (bool \<times> nat list) \<times> event list" where
  "validate_jsonl_file env file_path max_errors =
     (if \<not> path_exists env file_path
      then ((False, []), [Log ERROR (File_does_not_exist file_path)])
      else case open_text env file_path Ignore of
             Inl ex \<Rightarrow>
               ((False, []), [Open file_path Ignore, Log ERROR (Error_reading file_path ex)])
           | Inr content \<Rightarrow>
              (case scan_lines env max_errors 1 (file_lines content) [] [Open file_path Ignore] of
                 (Some ex, error_lines, log) \<Rightarrow>
                   ((False, error_lines), log @ [Log ERROR (Error_reading file_path ex)])
               | (None, error_lines, log) \<Rightarrow>
                   (if length error_lines = 0
                    then ((True, error_lines), log)
                    else ((False, error_lines),
                          log @ [Log WARNING
                                   (Found_invalid_lines_in (length error_lines) file_path)]))))"

subsection \<open>validate_data_directory\<close>

text \<open>
  The report.  Each of the two inner dictionaries has the keys \<open>total\<close>, \<open>valid\<close> and
  \<open>invalid\<close>; the inner \<open>valid\<close> count is the field \<open>n_valid\<close> here, the outer \<open>valid\<close>
  flag keeps its name.  An entry of the \<open>.jsonl\<close> list is the dictionary
  \<open>{"file": ..., "error_lines": ...}\<close>, a pair here.
\<close>

record 'a file_counts =
  total :: nat
  n_valid :: nat
  invalid :: "'a list"

record results =
  valid :: bool
  json_files :: "pystr file_counts"
  jsonl_files :: "(pystr \<times> nat list) file_counts"

text \<open>
  The function returns either the dictionary \<open>{"valid": False, "error": "Directory not found"}\<close>
  or the full report.
\<close>

datatype report = Directory_not_found | Report results

definition endswith :: "pystr \<Rightarrow> pystr \<Rightarrow> bool" where
  "endswith s suffix \<longleftrightarrow>
     length suffix \<le> length s \<and> drop (length s - length suffix) s = suffix"

text \<open>\<open>os.path.join\<close> on a POSIX system, for two components and for more.\<close>

definition path_join :: "pystr \<Rightarrow> pystr \<Rightarrow> pystr" where
  "path_join a b =
     (if b \<noteq> [] \<and> hd b = 47 then b
      else if a = [] \<or> last a = 47 then a @ b
      else a @ [47] @ b)"

definition path_join_all :: "pystr \<Rightarrow> pystr list \<Rightarrow> pystr" where
  "path_join_all a ps = foldl path_join a ps"

text \<open>The body of the inner loop, for one file name of one directory.\<close>

definition check_file ::
  "'doc env \<Rightarrow> pystr \<Rightarrow> results \<times> event list \<Rightarrow> pystr \<Rightarrow> results \<times> event list" where
  "check_file env root st file =
     (let res = fst st; log = snd st; file_path = path_join root file in
      if endswith file (U ''.json'') then
        (let (ok, l) = validate_json_file env file_path;
             jf = json_files res;
             jf1 = jf\<lparr>total := total jf + 1\<rparr>
         in if ok then (res\<lparr>json_files := jf1\<lparr>n_valid := n_valid jf1 + 1\<rparr>\<rparr>, log @ l)
            else (res\<lparr>json_files := jf1\<lparr>invalid := invalid jf1 @ [file_path]\<rparr>,
                      valid := False\<rparr>, log @ l))
      else if endswith file (U ''.jsonl'') then
        (let ((is_valid, error_lines), l) = validate_jsonl_file env file_path 10;
             jf = jsonl_files res;
             jf1 = jf\<lparr>total := total jf + 1\<rparr>
         in if is_valid then (res\<lparr>jsonl_files := jf1\<lparr>n_valid := n_valid jf1 + 1\<rparr>\<rparr>, log @ l)
            else (res\<lparr>jsonl_files := jf1\<lparr>invalid := invalid jf1 @ [(file_path, error_lines)]\<rparr>,
                      valid := False\<rparr>, log @ l))
      else st)"

definition check_dir ::
  "'doc env \<Rightarrow> results \<times> event list \<Rightarrow> pystr \<times> pystr list \<times> pystr list
     \<Rightarrow> results \<times> event list" where
  "check_dir env st triple = foldl (check_file env (fst triple)) st (snd (snd triple))"

definition initial_results :: results where
  "initial_results =
     \<lparr>valid = True,
      json_files = \<lparr>total = 0, n_valid = 0, invalid = []\<rparr>,
      jsonl_files = \<lparr>total = 0, n_valid = 0, invalid = []\<rparr>\<rparr>"

definition validate_data_directory :: "'doc env \<Rightarrow> pystr \<Rightarrow> report \<times> event list" where
  "validate_data_directory env data_dir =
     (if \<not> path_exists env data_dir
      then (Directory_not_found, [Log ERROR (Data_directory_does_not_exist data_dir)])
      else let (res, log) = foldl (check_dir env) (initial_results, []) (os_walk env data_dir)
           in (Report res, log))"

section \<open>finnhub_utils.py\<close>

text \<open>
  Truth value and \<open>len\<close> of a document.  \<open>len\<close> is defined on strings, lists and
  dictionaries and raises \<open>TypeError\<close> on the other values.
\<close>

fun py_bool :: "('f \<Rightarrow> bool) \<Rightarrow> 'f pyval \<Rightarrow> bool" where
  "py_bool float_bool PNone = False"
| "py_bool float_bool (PBool b) = b"
| "py_bool float_bool (PInt i) = (i \<noteq> 0)"
| "py_bool float_bool (PFloat x) = float_bool x"
| "py_bool float_bool (PStr s) = (s \<noteq> [])"
| "py_bool float_bool (PList xs) = (xs \<noteq> [])"
| "py_bool float_bool (PDict d) = (d \<noteq> [])"

fun py_len :: "'f pyval \<Rightarrow> exn + nat" where
  "py_len (PStr s) = Inr (length s)"
| "py_len (PList xs) = Inr (length xs)"
| "py_len (PDict d) = Inr (length d)"
| "py_len _ = Inl TypeError"

text \<open>
  The loop \<open>for key, value in data.items()\<close> with the dictionary \<open>filtered_data\<close> as
  its state.  \<open>start_date <= key <= end_date\<close> compares strings, and \<open>len(value)\<close> is
  evaluated only when the key is in the range.
\<close>

fun filter_items ::
  "pystr \<Rightarrow> pystr \<Rightarrow> (pystr \<times> 'f pyval) list \<Rightarrow> (pystr \<times> 'f pyval) list
     \<Rightarrow> exn + (pystr \<times> 'f pyval) list" where
  "filter_items start_date end_date [] filtered_data = Inr filtered_data"
| "filter_items start_date end_date ((key, value) # items) filtered_data =
     (if start_date \<le> key \<and> key \<le> end_date then
        (case py_len value of
           Inl ex \<Rightarrow> Inl ex
         | Inr n \<Rightarrow>
             if n > 0
             then filter_items start_date end_date items (dict_set filtered_data key value)
             else filter_items start_date end_date items filtered_data)
      else filter_items start_date end_date items filtered_data)"

text \<open>
  \<open>period\<close> is \<open>None\<close> or a string; \<open>if period\<close> holds for a string that is not empty.
  A document that is true but is no dictionary has no \<open>items\<close>: \<open>AttributeError\<close>.
\<close>

definition data_path_of :: "pystr \<Rightarrow> pystr \<Rightarrow> pystr \<Rightarrow> pystr option \<Rightarrow> pystr" where
  "data_path_of ticker data_type data_dir period =
     (case period of
        Some per \<Rightarrow>
          if per \<noteq> []
          then path_join_all data_dir
                 [U ''finnhub_data'', data_type,
                  ticker @ U ''_'' @ per @ U ''_data_formatted.json'']
          else path_join_all data_dir
                 [U ''finnhub_data'', data_type, ticker @ U ''_data_formatted.json'']
      | None \<Rightarrow>
          path_join_all data_dir
            [U ''finnhub_data'', data_type, ticker @ U ''_data_formatted.json''])"

definition get_data_in_range ::
  "'f pyval env \<Rightarrow> ('f \<Rightarrow> bool) \<Rightarrow> pystr \<Rightarrow> pystr \<Rightarrow> pystr \<Rightarrow> pystr \<Rightarrow> pystr
     \<Rightarrow> pystr option \<Rightarrow> (exn + (pystr \<times> 'f pyval) list) \<times> event list" where
  "get_data_in_range env float_bool ticker start_date end_date data_type data_dir period =
     (let data_path = data_path_of ticker data_type data_dir period;
          (data, log) = load_json_safe env data_path (PDict [])
      in if \<not> py_bool float_bool data
         then (Inr [], log @ [Log WARNING (No_data_loaded_from data_path)])
         else case data of
                PDict items \<Rightarrow> (filter_items start_date end_date items [], log)
              | _ \<Rightarrow> (Inl AttributeError, log))"

section \<open>A world of text files\<close>

text \<open>
  For running the code on examples: a file system given as a list of paths with the text
  of each file (files whose bytes are valid UTF-8, so that every \<open>errors\<close> mode reads
  the same text), the standard decoder in an interpreter with the usual limits and
  floats kept as their literals, and a walk given as its triples, whose roots are the
  directories that exist.  Opening a path that is no file raises \<open>OSError\<close>.
\<close>

definition interpreter :: "pystr interp" where
  "interpreter =
     \<lparr>py_float = (\<lambda>literal. literal), recursion_limit = 1000, int_max_str_digits = 4300\<rparr>"

definition text_files ::
  "(pystr \<times> pystr) list \<Rightarrow> (pystr \<times> pystr list \<times> pystr list) list \<Rightarrow> pystr pyval env" where
  "text_files files walk =
     \<lparr>path_exists = (\<lambda>p. map_of files p \<noteq> None \<or> p \<in> set (map fst walk)),
      open_text = (\<lambda>p e. case map_of files p of None \<Rightarrow> Inl OSError | Some t \<Rightarrow> Inr t),
      json_loads = py_json_loads interpreter,
      os_walk = (\<lambda>d. walk)\<rparr>"

section \<open>Notions used in the properties\<close>

text \<open>
  A line of a JSONL file is malformed when the loop tries to decode it (it is not blank)
  and the decoder raises \<open>JSONDecodeError\<close>; it is valid JSON when the decoder returns a
  document.  \<open>malformed_line_numbers\<close> are the 1-based numbers of the malformed lines, in
  increasing order; \<open>malformed_from\<close> computes them along the list, counting from \<open>i\<close>.
\<close>

definition malformed :: "'doc env \<Rightarrow> pystr \<Rightarrow> bool" where
  "malformed env line \<longleftrightarrow> \<not> blank line \<and> json_loads env False line = Inl JSONDecodeError"

definition valid_json :: "'doc env \<Rightarrow> pystr \<Rightarrow> bool" where
  "valid_json env line \<longleftrightarrow> (case json_loads env False line of Inr _ \<Rightarrow> True | Inl _ \<Rightarrow> False)"

definition malformed_line_numbers :: "'doc env \<Rightarrow> pystr list \<Rightarrow> nat list" where
  "malformed_line_numbers env ls =
     filter (\<lambda>i. malformed env (ls ! (i - 1))) [1..<Suc (length ls)]"

fun malformed_from :: "'doc env \<Rightarrow> nat \<Rightarrow> pystr list \<Rightarrow> nat list" where
  "malformed_from env i [] = []"
| "malformed_from env i (line # rest) =
     (if malformed env line then i # malformed_from env (Suc i) rest
      else malformed_from env (Suc i) rest)"

text \<open>
  A value is sized when \<open>len\<close> is defined on it, and non-empty when its length is
  positive.  \<open>kept\<close> is the test of the range filter on one entry: the key lies between
  the two dates, ends included, in the order of strings, and the value is non-empty.
\<close>

definition sized :: "'f pyval \<Rightarrow> bool" where
  "sized v \<longleftrightarrow> (case py_len v of Inr _ \<Rightarrow> True | Inl _ \<Rightarrow> False)"

definition nonempty :: "'f pyval \<Rightarrow> bool" where
  "nonempty v \<longleftrightarrow> (case py_len v of Inr n \<Rightarrow> 0 < n | Inl _ \<Rightarrow> False)"

definition kept :: "pystr \<Rightarrow> pystr \<Rightarrow> pystr \<times> 'f pyval \<Rightarrow> bool" where
  "kept start_date end_date kv \<longleftrightarrow>
     start_date \<le> fst kv \<and> fst kv \<le> end_date \<and> nonempty (snd kv)"

text \<open>The counts and the flag of a directory report fit together.\<close>

definition consistent :: "results \<Rightarrow> bool" where
  "consistent res \<longleftrightarrow>
     total (json_files res) = n_valid (json_files res) + length (invalid (json_files res)) \<and>
     total (jsonl_files res) = n_valid (jsonl_files res) + length (invalid (jsonl_files res)) \<and>
     (valid res \<longleftrightarrow> invalid (json_files res) = [] \<and> invalid (jsonl_files res) = [])"

subsection \<open>Example files\<close>

definition range_example :: pystr where
  \<open>range_example = U ''{"2024-01-01": [1], "2024-02-01": [], "2024-03-01": [2]}''\<close>

definition broken_example :: pystr where
  \<open>broken_example = U ''{"invalid": json content}''\<close>

text \<open>Five lines: the second and the fourth are malformed, the third is blank.\<close>

definition jsonl_example :: pystr where
  \<open>jsonl_example =
     U ''{"line": 1}'' @ [10] @ U ''{"line": 2, broken json}'' @ [10] @ U ''  '' @ [10] @
     U ''invalid line here'' @ [10] @ U ''{"line": 5}'' @ [10]\<close>

definition three_bad_lines :: pystr where
  "three_bad_lines = U ''x'' @ [10] @ U ''y'' @ [10] @ U ''z'' @ [10]"

definition two_bad_lines :: pystr where
  "two_bad_lines = U ''x'' @ [10] @ U ''y'' @ [10]"

text \<open>A NUL inside a string literal, and a NUL after the document.\<close>

definition nul_inside_example :: pystr where
  \<open>nul_inside_example = U ''{"k": "a'' @ [0] @ U ''b"}''\<close>

definition nul_outside_example :: pystr where
  \<open>nul_outside_example = U ''{"k": 1}'' @ [0]\<close>

text \<open>An in-range value that has no length.\<close>

definition number_value_example :: pystr where
  \<open>number_value_example = U ''{"2024-01-01": 5}''\<close>

text \<open>
  An integer literal of 4301 digits, one more than \<open>int\<close> converts: valid JSON on which
  the decoder raises \<open>ValueError\<close>.
\<close>

definition long_integer :: pystr where
  "long_integer = 49 # replicate 4300 49"

definition world :: "pystr pyval env" where
  "world = text_files
     [(U ''data/doc.json'', range_example),
      (U ''data/bad.json'', broken_example),
      (U ''data/lines.jsonl'', jsonl_example),
      (U ''data/README.md'', U ''trading data''),
      (U ''data/finnhub_data/news_data/TEST_data_formatted.json'', range_example),
      (U ''data/finnhub_data/news_data/NUM_data_formatted.json'', number_value_example),
      (U ''three.jsonl'', three_bad_lines),
      (U ''two.jsonl'', two_bad_lines),
      (U ''nul_inside.json'', nul_inside_example),
      (U ''nul_outside.json'', nul_outside_example),
      (U ''long.json'', long_integer),
      (U ''long.jsonl'', long_integer @ [10])]
     [(U ''data'', [U ''finnhub_data''],
       [U ''doc.json'', U ''bad.json'', U ''lines.jsonl'', U ''README.md'']),
      (U ''data/finnhub_data'', [U ''news_data''], []),
      (U ''data/finnhub_data/news_data'', [],
       [U ''TEST_data_formatted.json'', U ''NUM_data_formatted.json''])]"

section \<open>Properties\<close>

subsection \<open>Running the decoder on a text\<close>

text \<open>
  Unfolding \<open>scan_once\<close> and its loops at a bound written as a numeral, for the examples.
\<close>

lemma scan_once_pos:
  "0 < k \<Longrightarrow> scan_once cfg st d k s = scan_once cfg st d (Suc (k - 1)) s"
  "0 < k \<Longrightarrow> parse_array cfg st d k s vs = parse_array cfg st d (Suc (k - 1)) s vs"
  "0 < k \<Longrightarrow> parse_object cfg st d k s ps = parse_object cfg st d (Suc (k - 1)) s ps"
  by simp_all

lemmas scan_num =
  scan_once_pos[where k="numeral j" for j,
    unfolded scan_once.simps parse_array.simps parse_object.simps]

lemmas decoder_eval =
  py_json_loads_def scan_atom_def constants_def match_number_def number_value_def
  match_int_def match_frac_def match_exp_def
  nextchar_is_def is_digit_def int_of_digits_def push_def
  skip_ws_def json_ws_def startswith_def dict_of_pairs_def hexval_def backslash_def scan_num

lemmas world_eval = world_def text_files_def interpreter_def

lemmas run =
  world_eval decoder_eval blank_def py_isspace_def malformed_def valid_json_def
  path_join_all_def path_join_def data_path_of_def
  range_example_def broken_example_def jsonl_example_def three_bad_lines_def two_bad_lines_def
  nul_inside_example_def nul_outside_example_def number_value_example_def

lemmas run_directory =
  validate_data_directory_def check_dir_def check_file_def validate_json_file_def json_load_def
  validate_jsonl_file_def endswith_def path_join_def initial_results_def Let_def

subsection \<open>Strict and permissive decoding\<close>

lemma push_Some: "push c x = Some r \<longleftrightarrow> (\<exists>str rest. x = Some (str, rest) \<and> r = (c # str, rest))"
  by (auto simp: push_def split: option.splits)




subsection \<open>The bound on the calls of the decoder\<close>

text \<open>
  Every value that is read takes at least one character of the text.
\<close>

lemma length_skip_ws: "length (skip_ws s) \<le> length s"
  by (simp add: skip_ws_def length_dropWhile_le)

lemma nextchar_is_Cons: "nextchar_is c s \<Longrightarrow> \<exists>r. s = c # r"
  by (auto simp: nextchar_is_def split: list.splits)

lemma length_tl_skip_ws: "nextchar_is c (skip_ws s) \<Longrightarrow> length (tl (skip_ws s)) < length s"
  using length_skip_ws[of s] by (auto dest!: nextchar_is_Cons)

lemma length_skip_ws_tl: "nextchar_is c s \<Longrightarrow> length (skip_ws (tl s)) < length s"
  using length_skip_ws[of "tl s"] by (auto dest!: nextchar_is_Cons)

lemma scanstring_consumes:
  "scanstring strict s = Some (str, rest) \<Longrightarrow> length rest < length s"
proof (induction strict s arbitrary: str rest rule: scanstring.induct)
  case (1 strict)
  then show ?case by simp
next
  case (2 strict c cs)
  show ?case
    using "2.prems" "2.IH"
    by (fastforce simp: push_Some split: if_splits list.splits option.splits)
qed

lemma match_int_consumes: "match_int s = Some (ds, r) \<Longrightarrow> length r < length s"
  by (auto simp: match_int_def less_Suc_eq_le length_dropWhile_le split: list.splits if_splits)

lemma match_frac_consumes: "match_frac s = (f, r) \<Longrightarrow> length r \<le> length s"
  by (auto simp: match_frac_def split: if_splits
      intro: order_trans[OF length_dropWhile_le])

lemma match_exp_consumes: "match_exp s = (e, r) \<Longrightarrow> length r \<le> length s"
  by (auto simp: match_exp_def Let_def split: if_splits
      intro: order_trans[OF length_dropWhile_le])

lemma match_number_consumes:
  assumes "match_number cfg s = Some (Inr (v, r))"
  shows "length r < length s"
proof -
  let ?s1 = "if nextchar_is 45 s then tl s else s"
  from assms obtain ds r1 where i: "match_int ?s1 = Some (ds, r1)"
    by (auto simp: match_number_def Let_def split: option.splits)
  obtain f r2 where f: "match_frac r1 = (f, r2)" by (cases "match_frac r1")
  obtain e r3 where e: "match_exp r2 = (e, r3)" by (cases "match_exp r2")
  from assms i f e have "r = r3"
    by (auto simp: match_number_def Let_def split: sum.splits)
  moreover have "length r1 < length ?s1" using i by (rule match_int_consumes)
  moreover have "length r2 \<le> length r1" using f by (rule match_frac_consumes)
  moreover have "length r3 \<le> length r2" using e by (rule match_exp_consumes)
  moreover have "length ?s1 \<le> length s" by simp
  ultimately show ?thesis by simp
qed

lemma match_constant_consumes:
  "match_constant table s = Some (v, r) \<Longrightarrow> \<forall>(lit, x)\<in>set table. lit \<noteq> [] \<Longrightarrow>
   length r < length s"
proof (induction table)
  case Nil
  then show ?case by simp
next
  case (Cons a table)
  obtain lit x where a: "a = (lit, x)" by (cases a)
  show ?case
  proof (cases "startswith s lit")
    case True
    with Cons.prems a have r: "r = drop (length lit) s" and "lit \<noteq> []" by auto
    with True have "s \<noteq> []" by (auto simp: startswith_def)
    with r \<open>lit \<noteq> []\<close> show ?thesis by simp
  next
    case False
    with Cons a show ?thesis by auto
  qed
qed

lemma scan_atom_consumes: "scan_atom cfg s = Inr (v, r) \<Longrightarrow> length r < length s"
proof -
  assume a: "scan_atom cfg s = Inr (v, r)"
  show ?thesis
  proof (cases "match_constant (constants cfg) s")
    case None
    with a have "match_number cfg s = Some (Inr (v, r))"
      by (auto simp: scan_atom_def split: option.splits)
    then show ?thesis by (rule match_number_consumes)
  next
    case (Some p)
    with a have "match_constant (constants cfg) s = Some (v, r)"
      by (simp add: scan_atom_def)
    then show ?thesis
      by (rule match_constant_consumes) (simp add: constants_def)
  qed
qed

lemma scan_once_consumes:
  "scan_once cfg st d n s = Some (Inr (v, r)) \<Longrightarrow> length r < length s"
  "parse_array cfg st d n s vs = Some (Inr (v, r)) \<Longrightarrow> length r < length s"
  "parse_object cfg st d n s ps = Some (Inr (v, r)) \<Longrightarrow> length r < length s"
proof (induction cfg st d n s and cfg st d n s vs and cfg st d n s ps
       arbitrary: v r and v r and v r
       rule: scan_once_parse_array_parse_object.induct)
  case (1 cfg strict depth s)
  then show ?case by simp
next
  case (2 cfg strict depth n s)
  consider (str) "nextchar_is 34 s"
    | (obj) "\<not> nextchar_is 34 s" "nextchar_is 123 s"
    | (arr) "\<not> nextchar_is 34 s" "\<not> nextchar_is 123 s" "nextchar_is 91 s"
    | (other) "\<not> nextchar_is 34 s" "\<not> nextchar_is 123 s" "\<not> nextchar_is 91 s"
    by blast
  then show ?case
  proof cases
    case str
    with "2.prems" obtain x where "scanstring strict (tl s) = Some (x, r)"
      by (auto split: option.splits)
    then have "length r < length (tl s)" by (rule scanstring_consumes)
    then show ?thesis by simp
  next
    case obj
    with "2.prems" have d: "depth \<noteq> 0" by (auto split: if_splits)
    show ?thesis
    proof (cases "nextchar_is 125 (skip_ws (tl s))")
      case True
      with obj d "2.prems" have "r = tl (skip_ws (tl s))" by simp
      then show ?thesis
        using length_tl_skip_ws[OF True] obj(2) by (auto dest!: nextchar_is_Cons)
    next
      case False
      with obj d "2.prems" have "parse_object cfg strict (depth - 1) n (skip_ws (tl s)) [] = Some (Inr (v, r))"
        by simp
      then have "length r < length (skip_ws (tl s))"
        using d False by (intro "2.IH"(1)[OF obj]) simp_all
      then show ?thesis
        using length_skip_ws_tl[OF obj(2)] by simp
    qed
  next
    case arr
    with "2.prems" have d: "depth \<noteq> 0" by (auto split: if_splits)
    show ?thesis
    proof (cases "nextchar_is 93 (skip_ws (tl s))")
      case True
      with arr d "2.prems" have "r = tl (skip_ws (tl s))" by simp
      then show ?thesis
        using length_tl_skip_ws[OF True] arr(3) by (auto dest!: nextchar_is_Cons)
    next
      case False
      with arr d "2.prems" have "parse_array cfg strict (depth - 1) n (skip_ws (tl s)) [] = Some (Inr (v, r))"
        by simp
      then have "length r < length (skip_ws (tl s))"
        using d False by (intro "2.IH"(2)[OF arr]) simp_all
      then show ?thesis
        using length_skip_ws_tl[OF arr(3)] by simp
    qed
  next
    case other
    then show ?thesis
      using "2.prems" by (auto dest: scan_atom_consumes)
  qed
next
  case (3 cfg strict depth s "values")
  then show ?case by simp
next
  case (4 cfg strict depth n s "values")
  from "4.prems" obtain x s1 where x: "scan_once cfg strict depth n s = Some (Inr (x, s1))"
    by (auto split: option.splits sum.splits)
  then have l1: "length s1 < length s" by (rule "4.IH"(1))
  show ?case
  proof (cases "nextchar_is 93 (skip_ws s1)")
    case True
    with "4.prems" x have "r = tl (skip_ws s1)" by simp
    then show ?thesis using length_tl_skip_ws[OF True] l1 by simp
  next
    case False
    with "4.prems" x have c: "nextchar_is 44 (skip_ws s1)"
      by (auto split: if_splits)
    with "4.prems" x False
    have "parse_array cfg strict depth n (skip_ws (tl (skip_ws s1))) (values @ [x]) = Some (Inr (v, r))"
      by simp
    then have "length r < length (skip_ws (tl (skip_ws s1)))"
      using False c by (intro "4.IH"(2)[OF x refl refl]) simp_all
    then show ?thesis
      using length_skip_ws[of "tl (skip_ws s1)"] length_tl_skip_ws[OF c] l1 by simp
  qed
next
  case (5 cfg strict depth s pairs)
  then show ?case by simp
next
  case (6 cfg strict depth n s pairs)
  from "6.prems" have q: "nextchar_is 34 s"
    by (auto split: if_splits)
  with "6.prems" obtain key s1 where k: "scanstring strict (tl s) = Some (key, s1)"
    by (auto split: option.splits)
  then have l1: "length s1 < length (tl s)" by (rule scanstring_consumes)
  from "6.prems" q k have c: "nextchar_is 58 (skip_ws s1)"
    by (auto split: if_splits)
  with "6.prems" q k obtain x s3
    where x: "scan_once cfg strict depth n (skip_ws (tl (skip_ws s1))) = Some (Inr (x, s3))"
    by (auto split: option.splits sum.splits)
  have l3: "length s3 < length (skip_ws (tl (skip_ws s1)))"
    using q c x by (intro "6.IH"(1)[OF _ k refl]) simp_all
  have l13: "length s3 < length s"
    using l3 length_skip_ws[of "tl (skip_ws s1)"] length_tl_skip_ws[OF c] l1 by simp
  show ?case
  proof (cases "nextchar_is 125 (skip_ws s3)")
    case True
    with "6.prems" q k c x have "r = tl (skip_ws s3)" by simp
    then show ?thesis using length_tl_skip_ws[OF True] l13 by simp
  next
    case False
    with "6.prems" q k c x have c2: "nextchar_is 44 (skip_ws s3)"
      by (auto split: if_splits)
    with "6.prems" q k c x False
    have "parse_object cfg strict depth n (skip_ws (tl (skip_ws s3))) (pairs @ [(key, x)]) = Some (Inr (v, r))"
      by simp
    then have "length r < length (skip_ws (tl (skip_ws s3)))"
      using q c False c2 by (intro "6.IH"(2)[OF _ k refl _ x refl refl]) simp_all
    then show ?thesis
      using length_skip_ws[of "tl (skip_ws s3)"] length_tl_skip_ws[OF c2] l13 by simp
  qed
qed

text \<open>
  Hence a bound above twice the length of the text is never used up: \<open>scan_once\<close> and
  its loops return \<open>None\<close> for no text, and \<open>py_json_loads\<close> raises \<open>RecursionError\<close> only
  where the decoder does, on entering an array or an object at depth 0.
\<close>

lemma scan_once_fuel:
  "2 * length s < n \<Longrightarrow> scan_once cfg st d n s \<noteq> None"
  "2 * length s + 1 < n \<Longrightarrow> parse_array cfg st d n s vs \<noteq> None"
  "2 * length s + 1 < n \<Longrightarrow> parse_object cfg st d n s ps \<noteq> None"
proof (induction cfg st d n s and cfg st d n s vs and cfg st d n s ps
       rule: scan_once_parse_array_parse_object.induct)
  case (1 cfg strict depth s)
  then show ?case by simp
next
  case (2 cfg strict depth n s)
  consider (str) "nextchar_is 34 s"
    | (obj) "\<not> nextchar_is 34 s" "nextchar_is 123 s"
    | (arr) "\<not> nextchar_is 34 s" "\<not> nextchar_is 123 s" "nextchar_is 91 s"
    | (other) "\<not> nextchar_is 34 s" "\<not> nextchar_is 123 s" "\<not> nextchar_is 91 s"
    by blast
  then show ?case
  proof cases
    case str
    then show ?thesis by (auto split: option.splits)
  next
    case obj
    show ?thesis
    proof (cases "depth = 0 \<or> nextchar_is 125 (skip_ws (tl s))")
      case True
      then show ?thesis using obj by auto
    next
      case False
      have "2 * length (skip_ws (tl s)) + 1 < n"
        using length_skip_ws_tl[OF obj(2)] "2.prems" by simp
      then have "parse_object cfg strict (depth - 1) n (skip_ws (tl s)) [] \<noteq> None"
        using False by (intro "2.IH"(1)[OF obj]) simp_all
      then show ?thesis using obj False by simp
    qed
  next
    case arr
    show ?thesis
    proof (cases "depth = 0 \<or> nextchar_is 93 (skip_ws (tl s))")
      case True
      then show ?thesis using arr by auto
    next
      case False
      have "2 * length (skip_ws (tl s)) + 1 < n"
        using length_skip_ws_tl[OF arr(3)] "2.prems" by simp
      then have "parse_array cfg strict (depth - 1) n (skip_ws (tl s)) [] \<noteq> None"
        using False by (intro "2.IH"(2)[OF arr]) simp_all
      then show ?thesis using arr False by simp
    qed
  next
    case other
    then show ?thesis by simp
  qed
next
  case (3 cfg strict depth s "values")
  then show ?case by simp
next
  case (4 cfg strict depth n s "values")
  have "scan_once cfg strict depth n s \<noteq> None"
    using "4.prems" by (intro "4.IH"(1)) simp
  then obtain res where res: "scan_once cfg strict depth n s = Some res" by auto
  show ?case
  proof (cases res)
    case (Inl ex)
    with res show ?thesis by simp
  next
    case (Inr p)
    obtain x s1 where p: "p = (x, s1)" by (cases p)
    with Inr res have x: "scan_once cfg strict depth n s = Some (Inr (x, s1))" by simp
    then have l1: "length s1 < length s" by (rule scan_once_consumes(1))
    show ?thesis
    proof (cases "nextchar_is 93 (skip_ws s1) \<or> \<not> nextchar_is 44 (skip_ws s1)")
      case True
      then show ?thesis using x by auto
    next
      case False
      then have c: "nextchar_is 44 (skip_ws s1)" by simp
      have "2 * length (skip_ws (tl (skip_ws s1))) + 1 < n"
        using length_skip_ws[of "tl (skip_ws s1)"] length_tl_skip_ws[OF c] l1 "4.prems" by simp
      then have "parse_array cfg strict depth n (skip_ws (tl (skip_ws s1))) (values @ [x]) \<noteq> None"
        using False by (intro "4.IH"(2)[OF x refl refl]) simp_all
      then show ?thesis
        using x False by simp
    qed
  qed
next
  case (5 cfg strict depth s pairs)
  then show ?case by simp
next
  case (6 cfg strict depth n s pairs)
  show ?case
  proof (cases "nextchar_is 34 s")
    case False
    then show ?thesis by simp
  next
    case q: True
    show ?thesis
    proof (cases "scanstring strict (tl s)")
      case None
      then show ?thesis using q by simp
    next
      case (Some p)
      obtain key s1 where "p = (key, s1)" by (cases p)
      with Some have k: "scanstring strict (tl s) = Some (key, s1)" by simp
      then have l1: "length s1 < length (tl s)" by (rule scanstring_consumes)
      show ?thesis
      proof (cases "nextchar_is 58 (skip_ws s1)")
        case False
        then show ?thesis using q k by simp
      next
        case c: True
        let ?s = "skip_ws (tl (skip_ws s1))"
        have l2: "length ?s < length s"
          using length_skip_ws[of "tl (skip_ws s1)"] length_tl_skip_ws[OF c] l1 by simp
        have "2 * length ?s < n" using l2 "6.prems" by simp
        then have "scan_once cfg strict depth n ?s \<noteq> None"
          using q c by (intro "6.IH"(1)[OF _ k refl]) simp_all
        then obtain res where res: "scan_once cfg strict depth n ?s = Some res" by auto
        show ?thesis
        proof (cases res)
          case (Inl ex)
          with res q k c show ?thesis by simp
        next
          case (Inr p')
          obtain x s3 where "p' = (x, s3)" by (cases p')
          with Inr res have x: "scan_once cfg strict depth n ?s = Some (Inr (x, s3))" by simp
          then have l3: "length s3 < length ?s" by (rule scan_once_consumes(1))
          show ?thesis
          proof (cases "nextchar_is 125 (skip_ws s3) \<or> \<not> nextchar_is 44 (skip_ws s3)")
            case True
            then show ?thesis using q k c x by auto
          next
            case False
            then have c2: "nextchar_is 44 (skip_ws s3)" by simp
            have "2 * length (skip_ws (tl (skip_ws s3))) + 1 < n"
              using length_skip_ws[of "tl (skip_ws s3)"] length_tl_skip_ws[OF c2] l3 l2 "6.prems"
              by simp
            then have "parse_object cfg strict depth n (skip_ws (tl (skip_ws s3))) (pairs @ [(key, x)]) \<noteq> None"
              using q c False by (intro "6.IH"(2)[OF _ k refl _ x refl refl]) simp_all
            then show ?thesis
              using q k c x False by simp
          qed
        qed
      qed
    qed
  qed
qed

lemma py_json_loads_fuel:
  "scan_once cfg st d (Suc (2 * length s)) (skip_ws s) \<noteq> None"
proof -
  have "2 * length (skip_ws s) < Suc (2 * length s)"
    using length_skip_ws[of s] by simp
  then show ?thesis
    by (rule scan_once_fuel(1))
qed

subsection \<open>An integer literal\<close>

text \<open>
  A text that is a digit from 1 to 9 followed by digits, alone or with a line feed after
  it, is decoded by \<open>int\<close> of its digits, in both modes.
\<close>

lemma scan_once_atom:
  "\<not> nextchar_is 34 s \<Longrightarrow> \<not> nextchar_is 123 s \<Longrightarrow> \<not> nextchar_is 91 s \<Longrightarrow>
   scan_once cfg st d (Suc n) s = Some (scan_atom cfg s)"
  by simp

lemma integer_literal:
  assumes c: "49 \<le> c" "c \<le> 57"
    and ds: "list_all is_digit ds"
    and rest: "rest = [] \<or> rest = [10]"
  shows "py_json_loads cfg strict (c # ds @ rest) =
     (case number_value cfg False (c # ds) [] [] of Inl ex \<Rightarrow> Inl ex | Inr v \<Rightarrow> Inr v)"
proof -
  let ?s = "c # ds @ rest"
  have tw: "takeWhile is_digit (ds @ rest) = ds" "dropWhile is_digit (ds @ rest) = rest"
    using ds rest by (auto simp: list_all_iff is_digit_def)
  have mi: "match_int ?s = Some (c # ds, rest)"
    using c tw by (simp add: match_int_def)
  have mf: "match_frac rest = ([], rest)" and me: "match_exp rest = ([], rest)"
    using rest by (auto simp: match_frac_def match_exp_def nextchar_is_def)
  have mn: "match_number cfg ?s =
     (case number_value cfg False (c # ds) [] [] of
        Inl ex \<Rightarrow> Some (Inl ex) | Inr value \<Rightarrow> Some (Inr (value, rest)))"
    using c mi mf me by (simp add: match_number_def nextchar_is_def)
  have mc: "match_constant (constants cfg) ?s = None"
    using c by (simp add: constants_def startswith_def)
  have sa: "scan_atom cfg ?s =
     (case number_value cfg False (c # ds) [] [] of
        Inl ex \<Rightarrow> Inl ex | Inr value \<Rightarrow> Inr (value, rest))"
    by (simp add: scan_atom_def mc mn split: sum.splits)
  have sw: "skip_ws ?s = ?s" "skip_ws rest = []"
    using c rest by (auto simp: skip_ws_def json_ws_def)
  have so: "scan_once cfg strict (recursion_limit cfg) (Suc (2 * length ?s)) ?s
              = Some (scan_atom cfg ?s)"
    using c by (intro scan_once_atom) (simp_all add: nextchar_is_def)
  have bom: "\<not> nextchar_is 0xFEFF ?s"
    using c by (simp add: nextchar_is_def)
  show ?thesis
    unfolding py_json_loads_def sw(1) so sa using bom sw(2)
    by (simp split: sum.splits)
qed

lemma long_integer_decoded:
  "py_json_loads cfg strict long_integer =
     (case number_value cfg False long_integer [] [] of Inl ex \<Rightarrow> Inl ex | Inr v \<Rightarrow> Inr v)"
  "py_json_loads cfg strict (long_integer @ [10]) =
     (case number_value cfg False long_integer [] [] of Inl ex \<Rightarrow> Inl ex | Inr v \<Rightarrow> Inr v)"
  using integer_literal[of 49 "replicate 4300 49" "[]" cfg strict]
    integer_literal[of 49 "replicate 4300 49" "[10]" cfg strict]
  by (simp_all add: long_integer_def list_all_iff is_digit_def)

lemma long_integer_value:
  "number_value interpreter False long_integer [] [] = Inl ValueError"
  "number_value (interpreter\<lparr>int_max_str_digits := 0\<rparr>) False long_integer [] []
     = Inr (PInt (int_of_digits long_integer))"
  by (simp_all add: number_value_def interpreter_def long_integer_def)

subsection \<open>The sanitizer\<close>

text \<open>
  C9.  The sanitizer is idempotent: sanitizing a sanitized string changes nothing.
\<close>

theorem sanitize_json_string_idempotent:
  "sanitize_json_string (sanitize_json_string s) = sanitize_json_string s"
  by (simp add: sanitize_json_string_def)

subsection \<open>load_json_safe\<close>

text \<open>
  C1.  Whatever the file system and the decoder do, \<open>load_json_safe\<close> returns a value:
  the caller's default, or the document that one of the three strategies decoded.  Every
  exception of a strategy is caught and logged; none reaches the caller.
\<close>

theorem load_json_safe_parsed_or_default:
  "fst (load_json_safe env p d) = d
   \<or> json_load env p Strict False = Inr (fst (load_json_safe env p d))
   \<or> json_load env p Ignore False = Inr (fst (load_json_safe env p d))
   \<or> sanitize_and_reload env p = Inr (fst (load_json_safe env p d))"
  by (simp add: load_json_safe_def split: sum.splits)

text \<open>
  C8.  For a path that does not exist, \<open>load_json_safe\<close> returns exactly the default.
  The file is never opened and nothing is decoded: the only thing done is the warning.
\<close>

theorem load_json_safe_missing:
  "\<not> path_exists env p \<Longrightarrow> load_json_safe env p d = (d, [Log WARNING (File_not_found p)])"
  by (simp add: load_json_safe_def)

theorem load_json_safe_missing_witness:
  "\<not> path_exists world (U ''/nonexistent/file.json'') \<and>
   load_json_safe world (U ''/nonexistent/file.json'') (PDict [(U ''fallback'', PBool True)])
     = (PDict [(U ''fallback'', PBool True)],
        [Log WARNING (File_not_found (U ''/nonexistent/file.json''))])"
proof -
  have h: "\<not> path_exists world (U ''/nonexistent/file.json'')"
    by (simp add: world_eval)
  show ?thesis
    using h load_json_safe_missing [OF h, of "PDict [(U ''fallback'', PBool True)]"] by simp
qed

subsection \<open>validate_data_directory\<close>

lemma check_file_consistent:
  "consistent (fst st) \<Longrightarrow> consistent (fst (check_file env root st file))"
  by (auto simp: check_file_def consistent_def Let_def split: prod.splits)

lemma foldl_check_file_consistent:
  "consistent (fst st) \<Longrightarrow> consistent (fst (foldl (check_file env root) st files))"
  by (induction files arbitrary: st) (simp_all add: check_file_consistent)

lemma foldl_check_dir_consistent:
  "consistent (fst st) \<Longrightarrow> consistent (fst (foldl (check_dir env) st triples))"
  by (induction triples arbitrary: st)
     (simp_all add: check_dir_def foldl_check_file_consistent)

lemma initial_results_consistent: "consistent initial_results"
  by (simp add: consistent_def initial_results_def)

text \<open>
  C10.  For a directory that exists, the function returns the full report, and in it, for
  the \<open>.json\<close> and for the \<open>.jsonl\<close> files, the total is the number of valid files plus the
  length of the list of invalid ones; the \<open>valid\<close> flag is true exactly when both lists
  are empty.
\<close>

theorem validate_data_directory_consistent:
  assumes "path_exists env data_dir"
  shows "\<exists>res. fst (validate_data_directory env data_dir) = Report res \<and>
     total (json_files res) = n_valid (json_files res) + length (invalid (json_files res)) \<and>
     total (jsonl_files res) = n_valid (jsonl_files res) + length (invalid (jsonl_files res)) \<and>
     (valid res \<longleftrightarrow> invalid (json_files res) = [] \<and> invalid (jsonl_files res) = [])"
proof -
  let ?st = "foldl (check_dir env) (initial_results, []) (os_walk env data_dir)"
  have "consistent (fst ?st)"
    by (rule foldl_check_dir_consistent) (simp add: initial_results_consistent)
  moreover have "fst (validate_data_directory env data_dir) = Report (fst ?st)"
    using assms by (simp add: validate_data_directory_def split: prod.splits)
  ultimately show ?thesis
    unfolding consistent_def by blast
qed

theorem validate_data_directory_consistent_witness:
  "path_exists world (U ''data'') \<and>
   fst (validate_data_directory world (U ''data'')) =
     Report \<lparr>valid = False,
             json_files = \<lparr>total = 4, n_valid = 3, invalid = [U ''data/bad.json'']\<rparr>,
             jsonl_files = \<lparr>total = 1, n_valid = 0,
                            invalid = [(U ''data/lines.jsonl'', [2, 4])]\<rparr>\<rparr>"
proof -
  have h: "path_exists world (U ''data'')"
    by (simp add: world_eval)
  have e: "fst (validate_data_directory world (U ''data'')) =
     Report \<lparr>valid = False,
             json_files = \<lparr>total = 4, n_valid = 3, invalid = [U ''data/bad.json'']\<rparr>,
             jsonl_files = \<lparr>total = 1, n_valid = 0,
                            invalid = [(U ''data/lines.jsonl'', [2, 4])]\<rparr>\<rparr>"
    by (simp add: run_directory run)
  show ?thesis
    using h e validate_data_directory_consistent [OF h] by simp
qed

subsection \<open>validate_jsonl_file\<close>

text \<open>A line that ends with a line feed is yielded whole, the line feed included.\<close>

lemma file_lines_line:
  "10 \<notin> set l \<Longrightarrow> file_lines (l @ 10 # rest) = (l @ [10]) # file_lines rest"
  by (induction l) auto

lemma malformed_from_filter:
  "malformed_from env i ls = filter (\<lambda>j. malformed env (ls ! (j - i))) [i..<i + length ls]"
proof (induction ls arbitrary: i)
  case Nil
  then show ?case by simp
next
  case (Cons l ls)
  have upt: "[i..<i + length (l # ls)] = i # [Suc i..<Suc i + length ls]"
    by (subst upt_conv_Cons) simp_all
  have "filter (\<lambda>j. malformed env ((l # ls) ! (j - i))) [Suc i..<Suc i + length ls]
      = filter (\<lambda>j. malformed env (ls ! (j - Suc i))) [Suc i..<Suc i + length ls]"
    by (rule filter_cong) (auto simp: nth_Cons')
  then show ?case
    unfolding upt using Cons.IH[of "Suc i"] by simp
qed

lemma malformed_line_numbers_from:
  "malformed_line_numbers env ls = malformed_from env 1 ls"
  by (simp add: malformed_line_numbers_def malformed_from_filter)

text \<open>
  A scan that meets no other exception and whose errors stay within the budget records
  exactly the malformed lines: it either runs to the end of the file, or stops at the last
  malformed line.
\<close>

lemma scan_lines_complete:
  assumes "list_all (\<lambda>l. blank l \<or> malformed env l \<or> valid_json env l) ls"
    and "int (length acc + length (malformed_from env i ls)) \<le> m"
  shows "fst (scan_lines env m i ls acc lg) = None \<and>
         fst (snd (scan_lines env m i ls acc lg)) = acc @ malformed_from env i ls"
  using assms
proof (induction ls arbitrary: i acc lg)
  case Nil
  then show ?case by simp
next
  case (Cons l ls)
  show ?case
  proof (cases "blank l")
    case True
    then show ?thesis using Cons by (simp add: malformed_def)
  next
    case nb: False
    show ?thesis
    proof (cases "json_loads env False l")
      case (Inr v)
      then show ?thesis using Cons nb by (simp add: malformed_def)
    next
      case (Inl ex)
      with Cons.prems(1) nb have ex: "ex = JSONDecodeError"
        by (auto simp: malformed_def valid_json_def)
      then have mal: "malformed env l" using nb Inl by (simp add: malformed_def)
      show ?thesis
      proof (cases "int (length (acc @ [i])) \<ge> m")
        case True
        with Cons.prems(2) mal have "malformed_from env (Suc i) ls = []"
          by (cases "malformed_from env (Suc i) ls") auto
        then show ?thesis using True nb Inl ex mal by simp
      next
        case False
        then show ?thesis using Cons.IH[of "acc @ [i]" "Suc i"] Cons.prems nb Inl ex mal
          by simp
      qed
    qed
  qed
qed

text \<open>
  As long as the budget is not reached, the scan goes on: after a prefix of the file it
  has recorded the malformed lines of the prefix, and logged each of them.
\<close>

lemma scan_lines_prefix:
  assumes "list_all (\<lambda>l. blank l \<or> malformed env l \<or> valid_json env l) pre"
    and "malformed_from env i pre = [] \<or>
         int (length acc + length (malformed_from env i pre)) < m"
  shows "scan_lines env m i (pre @ rest) acc lg =
         scan_lines env m (i + length pre) rest (acc @ malformed_from env i pre)
           (lg @ map (\<lambda>j. Log DEBUG (Line_has_JSON_error j JSONDecodeError))
                   (malformed_from env i pre))"
  using assms
proof (induction pre arbitrary: i acc lg)
  case Nil
  then show ?case by simp
next
  case (Cons l ls)
  show ?case
  proof (cases "malformed env l")
    case True
    then have nb: "\<not> blank l" and jl: "json_loads env False l = Inl JSONDecodeError"
      by (simp_all add: malformed_def)
    from True Cons.prems(2)
    have lt: "int (length acc + 1 + length (malformed_from env (Suc i) ls)) < m"
      by simp
    then have nobreak: "\<not> int (length (acc @ [i])) \<ge> m" by simp
    have "malformed_from env (Suc i) ls = [] \<or>
          int (length (acc @ [i]) + length (malformed_from env (Suc i) ls)) < m"
      using lt by simp
    from Cons.IH[OF _ this, of "lg @ [Log DEBUG (Line_has_JSON_error i JSONDecodeError)]"]
      Cons.prems(1) True nb jl nobreak
    show ?thesis by simp
  next
    case False
    with Cons.prems(1) have "blank l \<or> valid_json env l" by simp
    then have step: "scan_lines env m i ((l # ls) @ rest) acc lg =
                     scan_lines env m (Suc i) (ls @ rest) acc lg"
      by (auto simp: valid_json_def split: sum.splits)
    have "malformed_from env (Suc i) ls = [] \<or>
          int (length acc + length (malformed_from env (Suc i) ls)) < m"
      using Cons.prems(2) False by simp
    from Cons.IH[OF _ this, of lg] Cons.prems(1) False step
    show ?thesis by simp
  qed
qed

text \<open>
  C4.  The claim fails where a line is valid JSON and the decoder raises an exception that
  is not \<open>JSONDecodeError\<close>.  The file has one line, an integer of 4301 digits: the decoder
  reads it when \<open>int\<close> has no limit on the digits, and raises \<open>ValueError\<close> in the
  interpreter as it is.  No line is malformed, so \<open>K = 0\<close>, and the result is
  \<open>(False, [])\<close> where the claim has \<open>(True, [])\<close>: the exception leaves the loop and is
  caught by the outer handler.
\<close>

theorem validate_jsonl_file_decoder_exception_counterexample:
  "open_text world (U ''long.jsonl'') Ignore = Inr (long_integer @ [10]) \<and>
   file_lines (long_integer @ [10]) = [long_integer @ [10]] \<and>
   py_json_loads (interpreter\<lparr>int_max_str_digits := 0\<rparr>) False (long_integer @ [10])
     = Inr (PInt (int_of_digits long_integer)) \<and>
   \<not> malformed world (long_integer @ [10]) \<and>
   malformed_line_numbers world (file_lines (long_integer @ [10])) = [] \<and>
   validate_jsonl_file world (U ''long.jsonl'') 10 =
     ((False, []),
      [Open (U ''long.jsonl'') Ignore,
       Log ERROR (Error_reading (U ''long.jsonl'') ValueError)])"
proof -
  have o: "path_exists world (U ''long.jsonl'')"
    "open_text world (U ''long.jsonl'') Ignore = Inr (long_integer @ [10])"
    by (simp_all add: world_eval)
  have l: "file_lines (long_integer @ [10]) = [long_integer @ [10]]"
    using file_lines_line[of long_integer "[]"] by (simp add: long_integer_def)
  have u: "py_json_loads (interpreter\<lparr>int_max_str_digits := 0\<rparr>) False (long_integer @ [10])
             = Inr (PInt (int_of_digits long_integer))"
    by (simp add: long_integer_decoded long_integer_value)
  have j: "json_loads world False (long_integer @ [10]) = Inl ValueError"
    by (simp add: world_def text_files_def long_integer_decoded long_integer_value)
  have b: "\<not> blank (long_integer @ [10])"
    by (simp add: blank_def long_integer_def py_isspace_def)
  have m: "\<not> malformed world (long_integer @ [10])"
    by (simp add: malformed_def j)
  have n: "malformed_line_numbers world (file_lines (long_integer @ [10])) = []"
    unfolding l malformed_line_numbers_from using m by simp
  have v: "validate_jsonl_file world (U ''long.jsonl'') 10 =
     ((False, []),
      [Open (U ''long.jsonl'') Ignore,
       Log ERROR (Error_reading (U ''long.jsonl'') ValueError)])"
    unfolding validate_jsonl_file_def using o l j b by simp
  show ?thesis
    using o(2) l u m n v by simp
qed

text \<open>
  C4, as the code has it.  A JSONL file in which every line that is tried is either
  malformed (the decoder raises \<open>JSONDecodeError\<close>) or decoded without an exception (blank
  lines are skipped and are neither), with \<open>K\<close> malformed lines and \<open>K\<close> within the budget:
  the result is the pair of \<open>K = 0\<close> and the 1-based numbers of the malformed lines in
  increasing order, and the list has at most \<open>max_errors\<close> entries.
\<close>

theorem validate_jsonl_file_reports_malformed_lines:
  assumes "path_exists env p"
    and "open_text env p Ignore = Inr content"
    and "list_all (\<lambda>l. blank l \<or> malformed env l \<or> valid_json env l) (file_lines content)"
    and "K = length (malformed_line_numbers env (file_lines content))"
    and "int K \<le> max_errors"
  shows "fst (validate_jsonl_file env p max_errors)
           = (K = 0, malformed_line_numbers env (file_lines content)) \<and>
         int (length (snd (fst (validate_jsonl_file env p max_errors)))) \<le> max_errors"
proof -
  let ?ls = "file_lines content"
  let ?r = "scan_lines env max_errors 1 ?ls [] [Open p Ignore]"
  have "fst ?r = None \<and> fst (snd ?r) = [] @ malformed_from env 1 ?ls"
    by (rule scan_lines_complete) (use assms in \<open>simp_all add: malformed_line_numbers_from\<close>)
  then obtain lg where r: "?r = (None, malformed_line_numbers env ?ls, lg)"
    by (cases ?r) (simp add: malformed_line_numbers_from)
  show ?thesis
    using assms(1,2,4,5) r by (simp add: validate_jsonl_file_def)
qed

theorem validate_jsonl_file_reports_malformed_lines_witness:
  "path_exists world (U ''data/lines.jsonl'') \<and>
   open_text world (U ''data/lines.jsonl'') Ignore = Inr jsonl_example \<and>
   list_all (\<lambda>l. blank l \<or> malformed world l \<or> valid_json world l) (file_lines jsonl_example) \<and>
   length (file_lines jsonl_example) = 5 \<and>
   malformed_line_numbers world (file_lines jsonl_example) = [2, 4] \<and>
   fst (validate_jsonl_file world (U ''data/lines.jsonl'') 10) = (False, [2, 4])"
proof -
  have h1: "path_exists world (U ''data/lines.jsonl'')"
    by (simp add: world_eval)
  have h2: "open_text world (U ''data/lines.jsonl'') Ignore = Inr jsonl_example"
    by (simp add: world_eval)
  have h3: "list_all (\<lambda>l. blank l \<or> malformed world l \<or> valid_json world l)
              (file_lines jsonl_example)"
    by (simp add: run)
  have n: "length (file_lines jsonl_example) = 5"
    by (simp add: jsonl_example_def)
  have m: "malformed_line_numbers world (file_lines jsonl_example) = [2, 4]"
    by (simp add: malformed_line_numbers_def run)
  have h4: "2 = length (malformed_line_numbers world (file_lines jsonl_example))"
    by (simp add: m)
  have h5: "int 2 \<le> 10" by simp
  show ?thesis
    using h1 h2 h3 n m validate_jsonl_file_reports_malformed_lines [OF h1 h2 h3 h4 h5]
    by simp
qed

text \<open>
  C2.  The claim that validity is true exactly when the returned list is empty fails for a
  file that does not exist: the list is empty and validity is false.
\<close>

theorem validate_jsonl_file_missing_counterexample:
  "snd (fst (validate_jsonl_file world (U ''missing.jsonl'') 10)) = [] \<and>
   \<not> fst (fst (validate_jsonl_file world (U ''missing.jsonl'') 10))"
  by (simp add: validate_jsonl_file_def world_eval)

text \<open>
  C2, as the code has it.  Validity is true exactly when the file exists, it was opened
  and scanned without an exception, and no line number was recorded.  For a missing file,
  and when reading fails, validity is false whatever the list holds.
\<close>

theorem validate_jsonl_file_valid_iff:
  "fst (fst (validate_jsonl_file env p m)) \<longleftrightarrow>
     path_exists env p \<and>
     (case open_text env p Ignore of
        Inl _ \<Rightarrow> False
      | Inr content \<Rightarrow> fst (scan_lines env m 1 (file_lines content) [] [Open p Ignore]) = None) \<and>
     snd (fst (validate_jsonl_file env p m)) = []"
  by (auto simp: validate_jsonl_file_def split: sum.splits prod.splits option.splits)

text \<open>
  C5, as the code has it.  Let the line \<open>l\<close> be malformed, let the lines \<open>pre\<close> before it
  raise nothing but \<open>JSONDecodeError\<close>, and let the error of \<open>l\<close> be the first that brings
  the number of recorded errors to \<open>max_errors\<close> or beyond.  Then the scan stops at \<open>l\<close>: the
  function returns normally, with validity false and the line numbers recorded so far,
  the lines \<open>rest\<close> after \<open>l\<close> have no part in the outcome, and the stop is told by a
  warning in the log and by nothing in the returned pair.
\<close>

theorem validate_jsonl_file_stops_at_budget:
  assumes "path_exists env p"
    and "open_text env p Ignore = Inr content"
    and "file_lines content = pre @ l # rest"
    and "list_all (\<lambda>l. blank l \<or> malformed env l \<or> valid_json env l) pre"
    and "malformed env l"
    and "malformed_line_numbers env pre = [] \<or>
         int (length (malformed_line_numbers env pre)) < max_errors"
    and "max_errors \<le> int (length (malformed_line_numbers env pre)) + 1"
  shows "validate_jsonl_file env p max_errors =
     ((False, malformed_line_numbers env pre @ [Suc (length pre)]),
      [Open p Ignore] @
      map (\<lambda>j. Log DEBUG (Line_has_JSON_error j JSONDecodeError))
        (malformed_line_numbers env pre @ [Suc (length pre)]) @
      [Log WARNING (Stopped_validation_at max_errors),
       Log WARNING (Found_invalid_lines_in (Suc (length (malformed_line_numbers env pre))) p)])"
proof -
  let ?mn = "malformed_from env 1 pre"
  let ?d = "\<lambda>j. Log DEBUG (Line_has_JSON_error j JSONDecodeError)"
  have mn: "malformed_line_numbers env pre = ?mn"
    by (rule malformed_line_numbers_from)
  have "scan_lines env max_errors 1 (pre @ l # rest) [] [Open p Ignore] =
        scan_lines env max_errors (1 + length pre) (l # rest) ([] @ ?mn) ([Open p Ignore] @ map ?d ?mn)"
    by (rule scan_lines_prefix) (use assms(4,6) mn in simp_all)
  also have "\<dots> = (None, ?mn @ [Suc (length pre)],
       [Open p Ignore] @ map ?d ?mn @ [?d (Suc (length pre)), Log WARNING (Stopped_validation_at max_errors)])"
    using assms(5,7) mn by (simp add: malformed_def)
  finally show ?thesis
    using assms(1,2,3) mn by (simp add: validate_jsonl_file_def)
qed

theorem validate_jsonl_file_stops_at_budget_witness:
  "path_exists world (U ''three.jsonl'') \<and>
   open_text world (U ''three.jsonl'') Ignore = Inr three_bad_lines \<and>
   file_lines three_bad_lines = [U ''x'' @ [10]] @ (U ''y'' @ [10]) # [U ''z'' @ [10]] \<and>
   malformed world (U ''x'' @ [10]) \<and> malformed world (U ''y'' @ [10]) \<and>
   malformed_line_numbers world [U ''x'' @ [10]] = [1] \<and>
   validate_jsonl_file world (U ''three.jsonl'') 2 =
     ((False, [1, 2]),
      [Open (U ''three.jsonl'') Ignore,
       Log DEBUG (Line_has_JSON_error 1 JSONDecodeError),
       Log DEBUG (Line_has_JSON_error 2 JSONDecodeError),
       Log WARNING (Stopped_validation_at 2),
       Log WARNING (Found_invalid_lines_in 2 (U ''three.jsonl''))])"
proof -
  have h1: "path_exists world (U ''three.jsonl'')"
    by (simp add: world_eval)
  have h2: "open_text world (U ''three.jsonl'') Ignore = Inr three_bad_lines"
    by (simp add: world_eval)
  have h3: "file_lines three_bad_lines = [U ''x'' @ [10]] @ (U ''y'' @ [10]) # [U ''z'' @ [10]]"
    by (simp add: three_bad_lines_def)
  have mx: "malformed world (U ''x'' @ [10])" and h5: "malformed world (U ''y'' @ [10])"
    by (simp_all add: run)
  have h4: "list_all (\<lambda>l. blank l \<or> malformed world l \<or> valid_json world l) [U ''x'' @ [10]]"
    using mx by simp
  have m: "malformed_line_numbers world [U ''x'' @ [10]] = [1]"
    using mx by (simp add: malformed_line_numbers_def)
  have h6: "malformed_line_numbers world [U ''x'' @ [10]] = [] \<or>
            int (length (malformed_line_numbers world [U ''x'' @ [10]])) < 2"
    unfolding m by simp
  have h7: "2 \<le> int (length (malformed_line_numbers world [U ''x'' @ [10]])) + 1"
    unfolding m by simp
  show ?thesis
    using h1 h2 h3 mx h5 m validate_jsonl_file_stops_at_budget [OF h1 h2 h3 h4 h5 h6 h7]
    by simp
qed

text \<open>
  C5.  The truncation is not reported in the result.  With three malformed lines and a
  budget of two the scan is cut short after line 2; with two malformed lines and a budget
  of three it reads the whole file.  Both calls return the same pair; only the log tells
  them apart.
\<close>

theorem validate_jsonl_file_no_truncation_flag_counterexample:
  "validate_jsonl_file world (U ''three.jsonl'') 2 =
     ((False, [1, 2]),
      [Open (U ''three.jsonl'') Ignore,
       Log DEBUG (Line_has_JSON_error 1 JSONDecodeError),
       Log DEBUG (Line_has_JSON_error 2 JSONDecodeError),
       Log WARNING (Stopped_validation_at 2),
       Log WARNING (Found_invalid_lines_in 2 (U ''three.jsonl''))]) \<and>
   validate_jsonl_file world (U ''two.jsonl'') 3 =
     ((False, [1, 2]),
      [Open (U ''two.jsonl'') Ignore,
       Log DEBUG (Line_has_JSON_error 1 JSONDecodeError),
       Log DEBUG (Line_has_JSON_error 2 JSONDecodeError),
       Log WARNING (Found_invalid_lines_in 2 (U ''two.jsonl''))])"
  by (simp add: validate_jsonl_file_def run)

subsection \<open>load_json_safe and an embedded NUL\<close>

text \<open>
  In permissive mode a control character inside a string literal, NUL included, is one
  more character of the string.
\<close>

lemma scanstring_control_character:
  "c < 32 \<Longrightarrow> scanstring False (c # cs) = push c (scanstring False cs)"
  by simp

text \<open>
  C3.  A NUL inside a string literal does not bring the last-resort strategy into play:
  the text without the NUL is valid JSON, but the permissive decoder of the first strategy
  accepts the text as it is, and the document is returned with the NUL in it, after a
  single \<open>open\<close>.
\<close>

theorem load_json_safe_nul_inside_string_counterexample:
  \<open>0 \<in> set nul_inside_example \<and>
   py_json_loads interpreter True (sanitize_json_string nul_inside_example)
     = Inr (PDict [(U ''k'', PStr (U ''ab''))]) \<and>
   load_json_safe world (U ''nul_inside.json'') PNone =
     (PDict [(U ''k'', PStr (U ''a'' @ [0] @ U ''b''))], [Open (U ''nul_inside.json'') Strict])\<close>
  by (simp add: load_json_safe_def json_load_def sanitize_json_string_def run)

text \<open>
  C3, as the code has it.  When the text read with invalid bytes replaced decodes after
  sanitizing, \<open>load_json_safe\<close> never falls back to the default: it returns the document
  of the first strategy that succeeds, and that is the document decoded from the
  sanitized text whenever the first two strategies fail.
\<close>

theorem load_json_safe_recovers_sanitized:
  assumes "path_exists env p"
    and "open_text env p Replace = Inr content"
    and "json_loads env False (sanitize_json_string content) = Inr doc"
  shows "load_json_safe env p d =
     (case json_load env p Strict False of
        Inr d1 \<Rightarrow> (d1, [Open p Strict])
      | Inl e1 \<Rightarrow>
         (case json_load env p Ignore False of
            Inr d2 \<Rightarrow> (d2, [Open p Strict, strategy1_warning p e1, Open p Ignore])
          | Inl e2 \<Rightarrow>
              (doc, [Open p Strict, strategy1_warning p e1, Open p Ignore,
                     Log WARNING (Failed_with_ignore_errors_strategy e2), Open p Replace])))"
  using assms by (simp add: load_json_safe_def sanitize_and_reload_def split: sum.splits)

theorem load_json_safe_recovers_sanitized_witness:
  \<open>path_exists world (U ''nul_outside.json'') \<and>
   open_text world (U ''nul_outside.json'') Replace = Inr nul_outside_example \<and>
   sanitize_json_string nul_outside_example = U ''{"k": 1}'' \<and>
   json_loads world False (sanitize_json_string nul_outside_example) = Inr (PDict [(U ''k'', PInt 1)]) \<and>
   load_json_safe world (U ''nul_outside.json'') PNone =
     (PDict [(U ''k'', PInt 1)],
      [Open (U ''nul_outside.json'') Strict,
       Log WARNING (JSON_decode_error_in (U ''nul_outside.json'') JSONDecodeError),
       Open (U ''nul_outside.json'') Ignore,
       Log WARNING (Failed_with_ignore_errors_strategy JSONDecodeError),
       Open (U ''nul_outside.json'') Replace])\<close>
proof -
  have h1: "path_exists world (U ''nul_outside.json'')"
    by (simp add: world_eval)
  have h2: "open_text world (U ''nul_outside.json'') Replace = Inr nul_outside_example"
    by (simp add: world_eval)
  have s: \<open>sanitize_json_string nul_outside_example = U ''{"k": 1}''\<close>
    by (simp add: sanitize_json_string_def nul_outside_example_def)
  have h3: "json_loads world False (sanitize_json_string nul_outside_example)
              = Inr (PDict [(U ''k'', PInt 1)])"
    by (simp add: s) (simp add: run)
  have j1: "json_load world (U ''nul_outside.json'') Strict False = Inl JSONDecodeError"
    and j2: "json_load world (U ''nul_outside.json'') Ignore False = Inl JSONDecodeError"
    by (simp_all add: json_load_def run)
  show ?thesis
    using h1 h2 s h3 j1 j2 load_json_safe_recovers_sanitized [OF h1 h2 h3, of PNone]
    by (simp add: strategy1_warning_def)
qed

subsection \<open>load_json_safe on valid JSON\<close>




subsection \<open>get_data_in_range\<close>

lemma dict_set_fresh: "key \<notin> fst ` set d \<Longrightarrow> dict_set d key value = d @ [(key, value)]"
  by (induction d) auto

lemma filter_items_acc:
  assumes "\<forall>(k, v)\<in>set items. start_date \<le> k \<and> k \<le> end_date \<longrightarrow> sized v"
    and "distinct (map fst (acc @ items))"
  shows "filter_items start_date end_date items acc
           = Inr (acc @ filter (kept start_date end_date) items)"
  using assms
proof (induction items arbitrary: acc)
  case Nil
  then show ?case by simp
next
  case (Cons kv items)
  obtain k v where kv: "kv = (k, v)" by (cases kv)
  show ?case
  proof (cases "kept start_date end_date kv")
    case True
    then have fresh: "dict_set acc k v = acc @ [(k, v)]"
      using Cons.prems(2) kv by (intro dict_set_fresh) auto
    have d: "distinct (map fst ((acc @ [(k, v)]) @ items))"
      using Cons.prems(2) kv by simp
    have "filter_items start_date end_date items (acc @ [(k, v)])
            = Inr ((acc @ [(k, v)]) @ filter (kept start_date end_date) items)"
      using Cons.prems(1) d by (intro Cons.IH) simp_all
    moreover from True kv obtain n where "start_date \<le> k" "k \<le> end_date" "py_len v = Inr n" "0 < n"
      by (auto simp: kept_def nonempty_def split: sum.splits)
    ultimately show ?thesis
      using True kv fresh by simp
  next
    case False
    have d: "distinct (map fst (acc @ items))"
      using Cons.prems(2) by simp
    have ih: "filter_items start_date end_date items acc
            = Inr (acc @ filter (kept start_date end_date) items)"
      using Cons.prems(1) d by (intro Cons.IH) simp_all
    have step: "filter_items start_date end_date (kv # items) acc
                  = filter_items start_date end_date items acc"
    proof (cases "start_date \<le> k \<and> k \<le> end_date")
      case True
      with Cons.prems(1) kv have "sized v" by simp
      then obtain n where n: "py_len v = Inr n"
        by (auto simp: sized_def split: sum.splits)
      with False True kv have "n = 0"
        by (simp add: kept_def nonempty_def)
      with True n kv show ?thesis by simp
    next
      case False
      with kv show ?thesis by auto
    qed
    show ?thesis
      using False step ih by simp
  qed
qed

lemma map_of_filter_distinct:
  "distinct (map fst items) \<Longrightarrow>
   map_of (filter P items) k =
     (case map_of items k of None \<Rightarrow> None | Some v \<Rightarrow> if P (k, v) then Some v else None)"
proof (induction items)
  case Nil
  then show ?case by simp
next
  case (Cons kv items)
  obtain k' v' where kv: "kv = (k', v')" by (cases kv)
  have notin: "k = k' \<Longrightarrow> map_of items k = None" "k = k' \<Longrightarrow> map_of (filter P items) k = None"
    using Cons.prems kv by (auto simp: map_of_eq_None_iff image_iff)
  show ?case
    using Cons kv notin by (auto split: option.splits)
qed

text \<open>
  A value on which \<open>len\<close> is not defined, under a key in the range, ends the loop with
  \<open>TypeError\<close>.
\<close>

lemma filter_items_unsized:
  "start_date \<le> key \<Longrightarrow> key \<le> end_date \<Longrightarrow>
   filter_items start_date end_date ((key, PInt n) # items) acc = Inl TypeError"
  by simp

text \<open>
  C7.  The claim fails for a mapping with a date as its key and a value that has no
  length.  The file holds one entry, the number 5 under the key \<open>2024-01-01\<close>, and the
  key is in the range: \<open>len(value)\<close> raises \<open>TypeError\<close>, which \<open>get_data_in_range\<close> does not catch, and no
  mapping is returned.
\<close>

theorem get_data_in_range_unsized_value_counterexample:
  "fst (load_json_safe world
          (data_path_of (U ''NUM'') (U ''news_data'') (U ''data'') None) (PDict []))
     = PDict [(U ''2024-01-01'', PInt 5)] \<and>
   U ''2024-01-01'' \<le> U ''2024-01-01'' \<and> U ''2024-01-01'' \<le> U ''2024-02-15'' \<and>
   get_data_in_range world (\<lambda>x. True) (U ''NUM'') (U ''2024-01-01'') (U ''2024-02-15'')
       (U ''news_data'') (U ''data'') None
     = (Inl TypeError, [Open (U ''data/finnhub_data/news_data/NUM_data_formatted.json'') Strict])"
  by (simp add: get_data_in_range_def load_json_safe_def json_load_def run)

text \<open>
  C7, as the code has it.  When the loaded document is a dictionary (each key once) whose
  values under keys in the range are sized (strings, lists, dictionaries),
  \<open>get_data_in_range\<close> returns exactly its entries whose key \<open>k\<close> satisfies
  \<open>start_date \<le> k \<le> end_date\<close> in the order of strings and whose value is non-empty: as a
  list the kept entries in their order, as a mapping the restriction of the document to
  these keys.  The example of the specification is the witness.
\<close>

theorem get_data_in_range_submapping:
  assumes "fst (load_json_safe env (data_path_of ticker data_type data_dir period) (PDict []))
             = PDict items"
    and "distinct (map fst items)"
    and "\<forall>(k, v)\<in>set items. start_date \<le> k \<and> k \<le> end_date \<longrightarrow> sized v"
  shows "fst (get_data_in_range env float_bool ticker start_date end_date data_type data_dir period)
           = Inr (filter (kept start_date end_date) items) \<and>
         (\<forall>k. map_of (filter (kept start_date end_date) items) k =
            (case map_of items k of
               None \<Rightarrow> None
             | Some v \<Rightarrow> if start_date \<le> k \<and> k \<le> end_date \<and> nonempty v then Some v else None))"
proof -
  have "filter_items start_date end_date items [] = Inr ([] @ filter (kept start_date end_date) items)"
    by (rule filter_items_acc) (use assms in simp_all)
  then have "fst (get_data_in_range env float_bool ticker start_date end_date data_type data_dir period)
           = Inr (filter (kept start_date end_date) items)"
    using assms(1) by (cases items) (auto simp: get_data_in_range_def Let_def split: prod.splits)
  moreover have "\<forall>k. map_of (filter (kept start_date end_date) items) k =
            (case map_of items k of
               None \<Rightarrow> None
             | Some v \<Rightarrow> if start_date \<le> k \<and> k \<le> end_date \<and> nonempty v then Some v else None)"
    using map_of_filter_distinct[OF assms(2), of "kept start_date end_date"]
    by (simp add: kept_def split: option.splits)
  ultimately show ?thesis by blast
qed

theorem get_data_in_range_submapping_witness:
  "fst (load_json_safe world
          (data_path_of (U ''TEST'') (U ''news_data'') (U ''data'') None) (PDict []))
     = PDict [(U ''2024-01-01'', PList [PInt 1]), (U ''2024-02-01'', PList []),
              (U ''2024-03-01'', PList [PInt 2])] \<and>
   fst (get_data_in_range world (\<lambda>x. True) (U ''TEST'') (U ''2024-01-01'') (U ''2024-02-15'')
          (U ''news_data'') (U ''data'') None)
     = Inr [(U ''2024-01-01'', PList [PInt 1])]"
proof -
  let ?items = "[(U ''2024-01-01'', PList [PInt 1]), (U ''2024-02-01'', PList []),
                 (U ''2024-03-01'', PList [PInt 2 :: pystr pyval])]"
  have h1: "fst (load_json_safe world
          (data_path_of (U ''TEST'') (U ''news_data'') (U ''data'') None) (PDict []))
     = PDict ?items"
    by (simp add: load_json_safe_def json_load_def run)
  have h2: "distinct (map fst ?items)"
    by simp
  have h3: "\<forall>(k, v)\<in>set ?items. U ''2024-01-01'' \<le> k \<and> k \<le> U ''2024-02-15'' \<longrightarrow> sized v"
    by (simp add: sized_def)
  have f: "filter (kept (U ''2024-01-01'') (U ''2024-02-15'')) ?items = [(U ''2024-01-01'', PList [PInt 1])]"
    by (simp add: kept_def nonempty_def)
  show ?thesis
    using h1 f get_data_in_range_submapping [OF h1 h2 h3, of "\<lambda>x. True"]
    by simp
qed


end
